theory Spec2Isabelle
  imports Complex_Main "HOL-Library.Sublist"
begin

section \<open>Data model\<close>

text \<open>
  The embedding follows \<^verbatim>\<open>src/sportsbet/soccer/optimization.py\<close>. A two-dimensional
  array is the list of its rows. An entry of an input array is a float that is finite, and
  then idealised as a real, or one of NaN and the two infinities; an array that has
  passed \<^verbatim>\<open>check_array\<close> holds finite entries only and is a \<open>matrix\<close> of reals. Array
  positions are natural numbers. Python exceptions are values of \<open>py_error\<close>.
\<close>

datatype py_error = ValueError | IndexError | ZeroDivisionError | FileNotFoundError

datatype float64 = Finite real | NaN | PosInf | NegInf

type_synonym array2d = "float64 list list"

type_synonym matrix = "real list list"

type_synonym fold = "nat list \<times> nat list"

text \<open>The constructor arguments of \<^verbatim>\<open>SeasonTimeSeriesSplit\<close> (defaults 2 and 6).\<close>

record SeasonTimeSeriesSplit =
  test_year :: int
  max_day_range :: int

section \<open>Season walk-forward splitter\<close>

text \<open>
  \<^verbatim>\<open>sklearn.utils.check_array(X, dtype=None)\<close> with its defaults: the input must convert
  to a two-dimensional array (a ragged or empty list of rows does not) with at least one
  sample and at least one feature, and every entry of it, in whatever column, must be
  finite; otherwise it raises ValueError.
\<close>

definition n_features :: "array2d \<Rightarrow> nat" where
  "n_features X = (case X of [] \<Rightarrow> 0 | r # _ \<Rightarrow> length r)"

definition is_rectangular :: "array2d \<Rightarrow> bool" where
  "is_rectangular X = list_all (\<lambda>r. length r = n_features X) X"

fun finite_value :: "float64 \<Rightarrow> real option" where
  "finite_value (Finite x) = Some x"
| "finite_value NaN = None"
| "finite_value PosInf = None"
| "finite_value NegInf = None"

definition assert_all_finite :: "array2d \<Rightarrow> matrix option" where
  "assert_all_finite X = those (map (\<lambda>r. those (map finite_value r)) X)"

definition check_array :: "array2d \<Rightarrow> py_error + matrix" where
  "check_array X =
     (if X = [] then Inl ValueError
      else if \<not> is_rectangular X then Inl ValueError
      else if n_features X = 0 then Inl ValueError
      else case assert_all_finite X of None \<Rightarrow> Inl ValueError | Some M \<Rightarrow> Inr M)"

text \<open>\<^verbatim>\<open>X[:, 0]\<close> on a checked array.\<close>

definition column0 :: "matrix \<Rightarrow> real list" where
  "column0 X = map (\<lambda>r. r ! 0) X"

text \<open>
  \<^verbatim>\<open>_generate_season_indices\<close>: stores the day column in \<^verbatim>\<open>self.days_\<close> and returns the
  positions whose day lies in \<open>[365 * (test_year - 1), 365 * test_year)\<close>, ascending. The
  stored attribute is returned as the first component.
\<close>

definition in_season :: "int \<Rightarrow> real \<Rightarrow> bool" where
  "in_season ty d =
     (let start_day = 365 * (ty - 1); end_day = 365 * ty
      in of_int start_day \<le> d \<and> d < of_int end_day)"

definition season_filter :: "int \<Rightarrow> real list \<Rightarrow> nat list" where
  "season_filter ty days = filter (\<lambda>i. in_season ty (days ! i)) [0..<length days]"

definition generate_season_indices ::
  "SeasonTimeSeriesSplit \<Rightarrow> array2d \<Rightarrow> py_error + (real list \<times> nat list)" where
  "generate_season_indices self X =
     (case check_array X of
        Inl e \<Rightarrow> Inl e
      | Inr X' \<Rightarrow> Inr (column0 X', season_filter (test_year self) (column0 X')))"

text \<open>
  The \<^verbatim>\<open>for ind in season_indices\<close> loop of \<^verbatim>\<open>split\<close>; the argument \<open>start_ind\<close> is the
  loop-carried anchor, the result the pairs yielded, in order. \<^verbatim>\<open>np.arange(a, b)\<close> is
  \<open>[a..<b]\<close>, empty when \<open>b \<le> a\<close>.
\<close>

fun split_loop :: "real list \<Rightarrow> int \<Rightarrow> nat \<Rightarrow> nat list \<Rightarrow> fold list" where
  "split_loop days mdr start_ind [] = []"
| "split_loop days mdr start_ind (ind # rest) =
     (if days ! ind - days ! start_ind \<ge> of_int mdr
      then ([0..<start_ind], [start_ind..<ind]) # split_loop days mdr ind rest
      else split_loop days mdr start_ind rest)"

text \<open>
  \<^verbatim>\<open>split\<close>, with the generator drained as \<^verbatim>\<open>list(...)\<close> does. \<^verbatim>\<open>season_indices[0]\<close> on
  an empty index array raises IndexError before anything is yielded.
\<close>

definition split :: "SeasonTimeSeriesSplit \<Rightarrow> array2d \<Rightarrow> py_error + fold list" where
  "split self X =
     (case generate_season_indices self X of
        Inl e \<Rightarrow> Inl e
      | Inr (days, season_indices) \<Rightarrow>
          (case season_indices of
             [] \<Rightarrow> Inl IndexError
           | start_ind # _ \<Rightarrow>
               Inr (split_loop days (max_day_range self) start_ind season_indices)))"

text \<open>The counting loop of \<^verbatim>\<open>get_n_splits\<close>, carrying \<open>start_ind\<close> and \<open>n_splits\<close>.\<close>

fun n_splits_loop :: "real list \<Rightarrow> int \<Rightarrow> nat \<Rightarrow> nat \<Rightarrow> nat list \<Rightarrow> nat" where
  "n_splits_loop days mdr start_ind n_splits [] = n_splits"
| "n_splits_loop days mdr start_ind n_splits (ind # rest) =
     (if days ! ind - days ! start_ind \<ge> of_int mdr
      then n_splits_loop days mdr ind (n_splits + 1) rest
      else n_splits_loop days mdr start_ind n_splits rest)"

definition get_n_splits :: "SeasonTimeSeriesSplit \<Rightarrow> array2d \<Rightarrow> py_error + nat" where
  "get_n_splits self X =
     (case generate_season_indices self X of
        Inl e \<Rightarrow> Inl e
      | Inr (days, season_indices) \<Rightarrow>
          (case season_indices of
             [] \<Rightarrow> Inl IndexError
           | start_ind # _ \<Rightarrow>
               Inr (n_splits_loop days (max_day_range self) start_ind 0 season_indices)))"

text \<open>A matrix of reals as an input array, all entries finite.\<close>

definition finite_array :: "matrix \<Rightarrow> array2d" where
  "finite_array M = map (map Finite) M"

section \<open>Backtest orchestrator\<close>

text \<open>
  A Fold Result is the pair \<^verbatim>\<open>(y_test, y_pred)\<close> appended to \<^verbatim>\<open>backtest_results_\<close>: integer
  labels and real-valued prediction scores.
\<close>

type_synonym fold_result = "int list \<times> real list"

text \<open>
  Code outside this file that \<^verbatim>\<open>backtest\<close> calls is a parameter: \<open>fit_predict\<close> stands for
  \<^verbatim>\<open>self.estimator_.fit(X_train, y_train, **self.fit_params_).predict(X_test)\<close>, its third
  argument the \<^verbatim>\<open>eval_set\<close> entry of the fit parameters when there is one, and
  \<open>train_test_split\<close> for sklearn's function of that name called with
  \<^verbatim>\<open>shuffle=False\<close>. Either may raise.
\<close>

record backtest_env =
  fit_predict ::
    "matrix \<Rightarrow> int list \<Rightarrow> (matrix \<times> int list) option \<Rightarrow> matrix \<Rightarrow> py_error + real list"
  train_test_split ::
    "real \<Rightarrow> matrix \<Rightarrow> int list \<Rightarrow> py_error + (matrix \<times> matrix \<times> int list \<times> int list)"

text \<open>
  \<^verbatim>\<open>np.hstack((X, odds.reshape(-1, 1)))\<close>: the odds become the last column; numpy raises
  ValueError when the row counts differ.
\<close>

definition hstack_odds :: "matrix \<Rightarrow> real list \<Rightarrow> py_error + matrix" where
  "hstack_odds X odds =
     (if length X \<noteq> length odds then Inl ValueError
      else Inr (map (\<lambda>(r, od). r @ [od]) (zip X odds)))"

text \<open>
  The progress bar \<^verbatim>\<open>progressbar.ProgressBar(min_value=1, max_value=n)\<close>. Its constructor
  compares the two bounds only when \<^verbatim>\<open>max_value\<close> is non-zero, so it accepts every
  \<open>n\<close> here. \<^verbatim>\<open>bar.update(v)\<close> raises ValueError for a value outside \<open>[1, n]\<close>, and to draw
  the bar it computes the percentage \<open>(v - 1) / (n - 1)\<close>, which raises
  ZeroDivisionError when \<open>n = 1\<close>.
\<close>

definition bar_update :: "nat \<Rightarrow> nat \<Rightarrow> py_error option" where
  "bar_update max_value v =
     (if v < 1 \<or> max_value < v then Some ValueError
      else if max_value = 1 then Some ZeroDivisionError
      else None)"

text \<open>
  The cross-validation loop of \<^verbatim>\<open>backtest\<close>; \<open>results\<close> is \<^verbatim>\<open>self.backtest_results_\<close> so
  far, \<open>ind\<close> the counter of \<^verbatim>\<open>enumerate\<close> and \<open>max_value\<close> the \<^verbatim>\<open>len(indices)\<close> given to the
  progress bar. \<^verbatim>\<open>X[idx, 1:]\<close> takes the rows at \<open>idx\<close> without the day column,
  \<^verbatim>\<open>X_val[:, :-1]\<close> drops the odds column. The positions come from \<open>split\<close> on the same
  array and are in range.
\<close>

fun backtest_loop ::
  "backtest_env \<Rightarrow> real option \<Rightarrow> matrix \<Rightarrow> int list \<Rightarrow> nat \<Rightarrow> nat \<Rightarrow> fold_result list
     \<Rightarrow> fold list \<Rightarrow> py_error + fold_result list" where
  "backtest_loop env validation_size X y max_value ind results [] = Inr results"
| "backtest_loop env validation_size X y max_value ind results
     ((train_indices, test_indices) # rest) =
     (let X_train = map (\<lambda>i. tl (X ! i)) train_indices;
          X_test = map (\<lambda>i. tl (X ! i)) test_indices;
          y_train = map (\<lambda>i. y ! i) train_indices;
          y_test = map (\<lambda>i. y ! i) test_indices
      in case (case validation_size of
                 None \<Rightarrow> Inr (X_train, y_train, None)
               | Some v \<Rightarrow>
                   (case train_test_split env v X_train y_train of
                      Inl e \<Rightarrow> Inl e
                    | Inr (X_train', X_val, y_train', y_val) \<Rightarrow>
                        Inr (X_train', y_train', Some (map butlast X_val, y_val)))) of
           Inl e \<Rightarrow> Inl e
         | Inr (X_fit, y_fit, eval_set) \<Rightarrow>
             (case fit_predict env X_fit y_fit eval_set X_test of
                Inl e \<Rightarrow> Inl e
              | Inr y_pred \<Rightarrow>
                  (case bar_update max_value (ind + 1) of
                     Some e \<Rightarrow> Inl e
                   | None \<Rightarrow>
                       backtest_loop env validation_size X y max_value (ind + 1)
                         (results @ [(y_test, y_pred)]) rest)))"

text \<open>
  \<^verbatim>\<open>backtest\<close>. The argument \<open>loaded\<close> is the outcome of \<^verbatim>\<open>load_modeling_data\<close>, which reads
  a file: the triple \<^verbatim>\<open>(X, y, odds)\<close> or the error it raises. The arrays of the triple
  have passed \<^verbatim>\<open>check_X_y\<close> and \<^verbatim>\<open>check_array\<close> there, so their entries are finite. The
  result is \<^verbatim>\<open>self.backtest_results_\<close> when the method returns, or the exception that ends
  it.
\<close>

definition backtest ::
  "backtest_env \<Rightarrow> real option \<Rightarrow> SeasonTimeSeriesSplit
     \<Rightarrow> py_error + (matrix \<times> int list \<times> real list) \<Rightarrow> py_error + fold_result list" where
  "backtest env validation_size splitter loaded =
     (case loaded of
        Inl e \<Rightarrow> Inl e
      | Inr (X0, y, odds) \<Rightarrow>
          (case hstack_odds X0 odds of
             Inl e \<Rightarrow> Inl e
           | Inr X \<Rightarrow>
               (case split splitter (finite_array X) of
                  Inl e \<Rightarrow> Inl e
                | Inr indices \<Rightarrow>
                    backtest_loop env validation_size X y (length indices) 0 [] indices)))"

section \<open>Capital simulation\<close>

text \<open>
  One row of the returned data frame, with its column names (\<^verbatim>\<open>'Bet amount'\<close> is
  \<open>Bet_amount\<close>). An undefined precision (\<^verbatim>\<open>np.nan\<close>) is \<open>None\<close>. Python floats are
  idealised as reals.
\<close>

record statistic =
  Capital :: real
  Profit :: real
  Bet_amount :: real
  Bets :: int
  Matches :: nat
  Precision :: "real option"

text \<open>
  The scoring functions imported from outside this file. What kind of number
  \<^verbatim>\<open>total_profit_score\<close> returns decides what a division of it by zero does, so it is
  part of the parameter: a Python number or a numpy scalar.
\<close>

datatype score_repr = PythonNumber | NumpyScalar

record scoring =
  total_profit_score :: "int list \<Rightarrow> real list \<Rightarrow> real"
  precision_score :: "int list \<Rightarrow> int list \<Rightarrow> real"
  score_repr :: score_repr

text \<open>The local variables that \<^verbatim>\<open>calculate_backtest_stats\<close> carries through its loop.\<close>

record sim_state =
  statistics :: "statistic list"
  precisions :: "real option list"
  capital :: real
  bet_amount :: real
  y_test_all :: "int list"
  y_pred_all :: "real list"

definition initial_state :: sim_state where
  "initial_state =
     \<lparr>statistics = [], precisions = [], capital = 1, bet_amount = 1,
      y_test_all = [], y_pred_all = []\<rparr>"

text \<open>
  \<^verbatim>\<open>bet_factor ** credit_exponent\<close> for a float base and an integer exponent: Python
  raises ZeroDivisionError for a zero base with a negative exponent.
\<close>

definition py_pow :: "real \<Rightarrow> int \<Rightarrow> py_error + real" where
  "py_pow x n = (if x = 0 \<and> n < 0 then Inl ZeroDivisionError else Inr (power_int x n))"

text \<open>The body of the \<^verbatim>\<open>for y_test, y_pred in self.backtest_results_\<close> loop, up to the append.\<close>

definition fold_step ::
  "scoring \<Rightarrow> real \<Rightarrow> int \<Rightarrow> sim_state \<Rightarrow> fold_result \<Rightarrow> py_error + sim_state" where
  "fold_step sc bet_factor credit_exponent st fr =
     (case fr of (y_test, y_pred) \<Rightarrow>
        let y_pred_bin = map (\<lambda>p. if p > 0 then 1 else 0) y_pred;
            n_bets = sum_list y_pred_bin;
            n_matches = length y_pred;
            precision = (if n_bets > 0 then Some (precision_score sc y_test y_pred_bin)
                         else None);
            profit = (if n_bets > 0
                      then bet_amount st * total_profit_score sc y_test y_pred / of_int n_bets
                      else 0);
            capital' = capital st + profit;
            bet_amount' = (if profit < 0 then bet_amount st * bet_factor else 1)
        in case py_pow bet_factor credit_exponent of
             Inl e \<Rightarrow> Inl e
           | Inr pw \<Rightarrow>
               let max_credit = capital' + pw;
                   bet_amount'' = (if bet_amount' > max_credit then max_credit
                                   else bet_amount');
                   row = \<lparr>Capital = capital', Profit = profit, Bet_amount = bet_amount'',
                          Bets = n_bets, Matches = n_matches, Precision = precision\<rparr>
               in Inr \<lparr>statistics = statistics st @ [row],
                       precisions = precisions st @ [precision],
                       capital = capital', bet_amount = bet_amount'',
                       y_test_all = y_test @ y_test_all st,
                       y_pred_all = y_pred @ y_pred_all st\<rparr>)"

text \<open>The loop itself, with its \<^verbatim>\<open>break\<close> when the bet amount is 0 after a fold.\<close>

fun stats_loop ::
  "scoring \<Rightarrow> real \<Rightarrow> int \<Rightarrow> sim_state \<Rightarrow> fold_result list \<Rightarrow> py_error + sim_state" where
  "stats_loop sc bet_factor credit_exponent st [] = Inr st"
| "stats_loop sc bet_factor credit_exponent st (fr # rest) =
     (case fold_step sc bet_factor credit_exponent st fr of
        Inl e \<Rightarrow> Inl e
      | Inr st' \<Rightarrow>
          if bet_amount st' = 0 then Inr st'
          else stats_loop sc bet_factor credit_exponent st' rest)"

text \<open>
  The per-fold step applied to every fold of a list in turn, with no stopping rule: the
  state in which the loop body leaves the variables after the last of these folds. It
  says what the bet amount after fold \<open>k\<close> is without saying where the loop stops.
\<close>

fun fold_steps ::
  "scoring \<Rightarrow> real \<Rightarrow> int \<Rightarrow> sim_state \<Rightarrow> fold_result list \<Rightarrow> py_error + sim_state" where
  "fold_steps sc bet_factor credit_exponent st [] = Inr st"
| "fold_steps sc bet_factor credit_exponent st (fr # rest) =
     (case fold_step sc bet_factor credit_exponent st fr of
        Inl e \<Rightarrow> Inl e
      | Inr st' \<Rightarrow> fold_steps sc bet_factor credit_exponent st' rest)"

text \<open>
  The division \<^verbatim>\<open>total_profit_score(y_test_all, y_pred_all) / y_pred_all.size\<close>, which
  nothing guards. By zero, a Python number raises ZeroDivisionError and a numpy scalar
  gives an infinity of the sign of the numerator, or NaN for a zero numerator, with a
  warning only.
\<close>

definition true_divide :: "score_repr \<Rightarrow> real \<Rightarrow> nat \<Rightarrow> py_error + float64" where
  "true_divide repr x n =
     (if n \<noteq> 0 then Inr (Finite (x / of_nat n))
      else case repr of
             PythonNumber \<Rightarrow> Inl ZeroDivisionError
           | NumpyScalar \<Rightarrow> Inr (if 0 < x then PosInf else if x < 0 then NegInf else NaN))"

text \<open>\<^verbatim>\<open>np.nanmean\<close>: the mean of the defined entries, undefined when there is none.\<close>

definition nanmean :: "real option list \<Rightarrow> real option" where
  "nanmean ps =
     (let defined = List.map_filter (\<lambda>p. p) ps
      in if defined = [] then None else Some (sum_list defined / of_nat (length defined)))"

text \<open>
  What \<^verbatim>\<open>calculate_backtest_stats\<close> leaves behind: the returned data frame and the two
  attributes it sets, \<^verbatim>\<open>self.profit_per_bet_\<close> and \<^verbatim>\<open>self.precision_\<close> (a name cannot end
  in an underscore here, hence the suffix).
\<close>

record backtest_stats =
  statistics_df :: "statistic list"
  profit_per_bet_attr :: float64
  precision_attr :: "real option"

text \<open>
  The lines after the loop: the data frame is built from the rows, then the two attributes
  are set. The division comes first, so when it raises nothing is returned.
\<close>

definition define_attributes :: "scoring \<Rightarrow> sim_state \<Rightarrow> py_error + backtest_stats" where
  "define_attributes sc st =
     (case true_divide (score_repr sc)
             (total_profit_score sc (y_test_all st) (y_pred_all st))
             (length (y_pred_all st)) of
        Inl e \<Rightarrow> Inl e
      | Inr q \<Rightarrow>
          Inr \<lparr>statistics_df = statistics st, profit_per_bet_attr = q,
               precision_attr = nanmean (precisions st)\<rparr>)"

definition calculate_backtest_stats ::
  "scoring \<Rightarrow> real \<Rightarrow> int \<Rightarrow> fold_result list \<Rightarrow> py_error + backtest_stats" where
  "calculate_backtest_stats sc bet_factor credit_exponent backtest_results =
     (case stats_loop sc bet_factor credit_exponent initial_state backtest_results of
        Inl e \<Rightarrow> Inl e
      | Inr st \<Rightarrow> define_attributes sc st)"

section \<open>Splitter: auxiliary facts\<close>

lemma n_splits_loop_length:
  "n_splits_loop days mdr s n inds = n + length (split_loop days mdr s inds)"
  by (induction inds arbitrary: s n) simp_all

lemma get_n_splits_split:
  "get_n_splits self X = (case split self X of Inl e \<Rightarrow> Inl e | Inr fs \<Rightarrow> Inr (length fs))"
  by (simp add: get_n_splits_def split_def n_splits_loop_length
      split: sum.splits prod.splits list.splits)

text \<open>
  For a non-decreasing day column the season indices are one contiguous block of
  positions, and every position before the block has a strictly smaller day than the
  block's first position.
\<close>

lemma filter_upt_interval:
  assumes "a \<le> b" "b \<le> n"
    and lo: "\<And>i. i < a \<Longrightarrow> \<not> P i"
    and mid: "\<And>i. a \<le> i \<Longrightarrow> i < b \<Longrightarrow> P i"
    and hi: "\<And>i. b \<le> i \<Longrightarrow> i < n \<Longrightarrow> \<not> P i"
  shows "filter P [0..<n] = [a..<b]"
proof -
  have "[0..<b] = [0..<a] @ [a..<b]"
    using assms(1) upt_add_eq_append[of 0 a "b - a"] by simp
  moreover have "[0..<n] = [0..<b] @ [b..<n]"
    using assms(2) upt_add_eq_append[of 0 b "n - b"] by simp
  moreover have "filter P [0..<a] = []" using lo by (simp add: filter_empty_conv)
  moreover have "filter P [a..<b] = [a..<b]" using mid by (simp add: filter_id_conv)
  moreover have "filter P [b..<n] = []" using hi by (simp add: filter_empty_conv)
  ultimately show ?thesis by simp
qed

lemma convex_filter_upt:
  assumes conv: "\<And>i j k. i \<le> j \<Longrightarrow> j \<le> k \<Longrightarrow> P i \<Longrightarrow> P k \<Longrightarrow> P j"
    and ne: "filter P [0..<n] \<noteq> []"
  shows "\<exists>a b. a < b \<and> b \<le> n \<and> filter P [0..<n] = [a..<b] \<and> (\<forall>i<a. \<not> P i) \<and> P a"
proof -
  define Q where "Q i = (i < n \<and> P i)" for i
  from ne obtain w where w: "Q w"
    by (auto simp: filter_empty_conv Q_def)
  define a where "a = (LEAST i. Q i)"
  define g where "g = (GREATEST i. Q i)"
  have bound: "\<And>y. Q y \<Longrightarrow> y \<le> n" by (simp add: Q_def)
  have Qa: "Q a" unfolding a_def using w by (rule LeastI)
  have Qg: "Q g" unfolding g_def using w bound by (rule GreatestI_nat)
  have a_le: "\<And>i. Q i \<Longrightarrow> a \<le> i" unfolding a_def by (rule Least_le)
  have le_g: "i \<le> g" if "Q i" for i
    unfolding g_def using that bound by (rule Greatest_le_nat)
  have lo: "\<not> P i" if "i < a" for i
  proof
    assume "P i"
    moreover have "i < n" using that Qa by (simp add: Q_def)
    ultimately have "Q i" by (simp add: Q_def)
    from a_le[OF this] that show False by simp
  qed
  have "filter P [0..<n] = [a..<Suc g]"
  proof (rule filter_upt_interval)
    show "a \<le> Suc g" using a_le[OF Qg] by simp
    show "Suc g \<le> n" using Qg by (simp add: Q_def)
    show "\<not> P i" if "i < a" for i using lo that .
    show "P i" if "a \<le> i" "i < Suc g" for i
      using conv[of a i g] that Qa Qg by (simp add: Q_def)
    show "\<not> P i" if "Suc g \<le> i" "i < n" for i
    proof
      assume "P i"
      with that have "Q i" by (simp add: Q_def)
      from le_g[OF this] that show False by simp
    qed
  qed
  moreover have "a < Suc g" using a_le[OF Qg] by simp
  moreover have "Suc g \<le> n" using Qg by (simp add: Q_def)
  moreover have "P a" using Qa by (simp add: Q_def)
  moreover have "\<forall>i<a. \<not> P i" using lo by simp
  ultimately show ?thesis by (intro exI[of _ a] exI[of _ "Suc g"] conjI)
qed

lemma in_season_convex:
  "in_season ty x \<Longrightarrow> in_season ty z \<Longrightarrow> x \<le> y \<Longrightarrow> y \<le> z \<Longrightarrow> in_season ty y"
  unfolding in_season_def Let_def by linarith

lemma in_season_boundary:
  "\<not> in_season ty x \<Longrightarrow> in_season ty y \<Longrightarrow> x \<le> y \<Longrightarrow> x < y"
  unfolding in_season_def Let_def by linarith

lemma season_filter_sorted_interval:
  assumes "sorted days" "season_filter ty days \<noteq> []"
  shows "\<exists>a b. a < b \<and> b \<le> length days \<and> season_filter ty days = [a..<b]
           \<and> (\<forall>t<a. days ! t < days ! a)"
proof -
  let ?P = "\<lambda>i. in_season ty (days ! i)"
  let ?R = "\<lambda>i. i < length days \<and> ?P i"
  have eq: "season_filter ty days = filter ?R [0..<length days]"
    unfolding season_filter_def by (rule filter_cong) auto
  have conv: "?R j" if "i \<le> j" "j \<le> k" "?R i" "?R k" for i j k
  proof -
    have "days ! i \<le> days ! j" using assms(1) that by (simp add: sorted_nth_mono)
    moreover have "days ! j \<le> days ! k" using assms(1) that by (simp add: sorted_nth_mono)
    ultimately have "?P j" using that in_season_convex by blast
    then show ?thesis using that by simp
  qed
  have ne: "filter ?R [0..<length days] \<noteq> []" using assms(2) eq by simp
  have "\<exists>a b. a < b \<and> b \<le> length days \<and> filter ?R [0..<length days] = [a..<b]
          \<and> (\<forall>i<a. \<not> ?R i) \<and> ?R a"
    using conv ne by (rule convex_filter_upt)
  then obtain a b where ab0: "a < b \<and> b \<le> length days \<and> filter ?R [0..<length days] = [a..<b]
          \<and> (\<forall>i<a. \<not> ?R i) \<and> ?R a"
    by (elim exE) (rule that, assumption)
  then have ab: "a < b" "b \<le> length days" "filter ?R [0..<length days] = [a..<b]"
    "\<forall>i<a. \<not> ?R i" "?R a"
    by simp_all
  have "days ! t < days ! a" if "t < a" for t
  proof -
    have "days ! t \<le> days ! a" using assms(1) that ab by (simp add: sorted_nth_mono)
    moreover have "\<not> ?P t" using ab that by simp
    ultimately show ?thesis using ab(5) in_season_boundary by blast
  qed
  then have "\<forall>t<a. days ! t < days ! a" by simp
  moreover have "season_filter ty days = [a..<b]" using eq ab(3) by simp
  ultimately show ?thesis using ab(1,2) by (intro exI[of _ a] exI[of _ b] conjI)
qed

text \<open>
  The loop invariant behind the separation of train and test days: at the anchor \<open>s\<close>
  every earlier position has a strictly smaller day, and no position visited since the
  anchor was set has reached the day range.
\<close>

lemma split_loop_separated:
  assumes srt: "sorted days" and pos: "0 < mdr" and bnd: "b \<le> length days"
  shows "s \<le> j \<Longrightarrow> j \<le> b \<Longrightarrow> (\<forall>t<s. days ! t < days ! s)
     \<Longrightarrow> (\<forall>m. s \<le> m \<and> m < j \<longrightarrow> days ! m - days ! s < of_int mdr)
     \<Longrightarrow> (tr, te) \<in> set (split_loop days mdr s [j..<b])
     \<Longrightarrow> t \<in> set tr \<Longrightarrow> u \<in> set te \<Longrightarrow> days ! t < days ! u"
proof (induction "b - j" arbitrary: s j)
  case 0
  then show ?case by simp
next
  case (Suc d)
  then have jb: "j < b" by simp
  then have upt: "[j..<b] = j # [Suc j..<b]" by (simp add: upt_conv_Cons)
  have d: "d = b - Suc j" using Suc.hyps(2) by simp
  show ?case
  proof (cases "days ! j - days ! s \<ge> of_int mdr")
    case True
    have sj: "s < j"
    proof (rule ccontr)
      assume "\<not> s < j"
      with Suc.prems(1) have "s = j" by simp
      with True pos show False by simp
    qed
    have prev: "days ! (j - 1) < days ! j"
    proof -
      have "days ! (j - 1) - days ! s < of_int mdr" using Suc.prems(4) sj by simp
      with True show ?thesis by linarith
    qed
    have newA: "\<forall>t<j. days ! t < days ! j"
    proof (intro allI impI)
      fix t assume "t < j"
      then have "days ! t \<le> days ! (j - 1)"
        using srt jb bnd by (simp add: sorted_nth_mono)
      with prev show "days ! t < days ! j" by simp
    qed
    have newB: "\<forall>m. j \<le> m \<and> m < Suc j \<longrightarrow> days ! m - days ! j < of_int mdr"
    proof (intro allI impI)
      fix m assume "j \<le> m \<and> m < Suc j"
      then have "m = j" by simp
      with pos show "days ! m - days ! j < of_int mdr" by simp
    qed
    from Suc.prems(5) upt True
    consider (here) "(tr, te) = ([0..<s], [s..<j])"
      | (later) "(tr, te) \<in> set (split_loop days mdr j [Suc j..<b])"
      by auto
    then show ?thesis
    proof cases
      case here
      with Suc.prems(6,7) have ts: "t < s" and su: "s \<le> u" and uj: "u < j" by auto
      have "days ! t < days ! s" using Suc.prems(3) ts by simp
      moreover have "days ! s \<le> days ! u" using srt su uj jb bnd by (simp add: sorted_nth_mono)
      ultimately show ?thesis by simp
    next
      case later
      show ?thesis
        by (rule Suc.hyps(1)[OF d _ _ newA newB later Suc.prems(6,7)]) (use jb in simp_all)
    qed
  next
    case False
    have newB: "\<forall>m. s \<le> m \<and> m < Suc j \<longrightarrow> days ! m - days ! s < of_int mdr"
    proof (intro allI impI)
      fix m assume m: "s \<le> m \<and> m < Suc j"
      show "days ! m - days ! s < of_int mdr"
      proof (cases "m = j")
        case True with False show ?thesis by simp
      next
        case False with m Suc.prems(4) show ?thesis by simp
      qed
    qed
    from Suc.prems(5) upt False
    have later: "(tr, te) \<in> set (split_loop days mdr s [Suc j..<b])" by simp
    show ?thesis
      by (rule Suc.hyps(1)[OF d _ _ Suc.prems(3) newB later Suc.prems(6,7)])
         (use jb Suc.prems(1) in simp_all)
  qed
qed

lemma check_array_error: "check_array X = Inl e \<Longrightarrow> e = ValueError"
  by (auto simp: check_array_def split: if_splits option.splits)

lemma split_checked:
  "check_array X = Inr M \<Longrightarrow>
   split self X =
     (case season_filter (test_year self) (column0 M) of
        [] \<Rightarrow> Inl IndexError
      | start_ind # _ \<Rightarrow>
          Inr (split_loop (column0 M) (max_day_range self) start_ind
                 (season_filter (test_year self) (column0 M))))"
  by (simp add: split_def generate_season_indices_def)

lemma split_rejected: "check_array X = Inl e \<Longrightarrow> split self X = Inl e"
  by (simp add: split_def generate_season_indices_def)

lemma split_Inr_checked:
  assumes "check_array X = Inr M" and "split self X = Inr folds"
  shows "season_filter (test_year self) (column0 M) \<noteq> []
       \<and> folds = split_loop (column0 M) (max_day_range self)
            (hd (season_filter (test_year self) (column0 M)))
            (season_filter (test_year self) (column0 M))"
  using assms(2) unfolding split_checked[OF assms(1)]
  by (auto split: list.splits)

lemma split_Inr_D:
  assumes "split self X = Inr folds"
  shows "\<exists>M. check_array X = Inr M
       \<and> folds = split_loop (column0 M) (max_day_range self)
            (hd (season_filter (test_year self) (column0 M)))
            (season_filter (test_year self) (column0 M))"
proof (cases "check_array X")
  case (Inl e)
  with assms show ?thesis by (simp add: split_rejected)
next
  case (Inr M)
  with split_Inr_checked[OF Inr assms] show ?thesis by simp
qed

lemma split_loop_hd_train:
  "split_loop days mdr s inds = (tr, te) # fs \<Longrightarrow> tr = [0..<s]"
  by (induction inds arbitrary: s) (auto split: if_splits)

lemma split_loop_chain:
  "sorted inds \<Longrightarrow> \<forall>i\<in>set inds. s \<le> i
    \<Longrightarrow> Suc k < length (split_loop days mdr s inds)
    \<Longrightarrow> fst (split_loop days mdr s inds ! Suc k)
        = fst (split_loop days mdr s inds ! k) @ snd (split_loop days mdr s inds ! k)"
proof (induction inds arbitrary: s k)
  case Nil
  then show ?case by simp
next
  case (Cons ind rest)
  show ?case
  proof (cases "days ! ind - days ! s \<ge> of_int mdr")
    case False
    with Cons show ?thesis by simp
  next
    case True
    let ?tl = "split_loop days mdr ind rest"
    have eq: "split_loop days mdr s (ind # rest) = ([0..<s], [s..<ind]) # ?tl"
      using True by simp
    have s_le: "s \<le> ind" using Cons.prems(2) by simp
    have srt: "sorted rest" and ge: "\<forall>i\<in>set rest. ind \<le> i" using Cons.prems(1) by simp_all
    show ?thesis
    proof (cases k)
      case 0
      from Cons.prems(3) eq obtain tr te fs where tl: "?tl = (tr, te) # fs"
        by (cases ?tl) auto
      then have "tr = [0..<ind]" by (rule split_loop_hd_train)
      moreover have "[0..<ind] = [0..<s] @ [s..<ind]"
        using s_le upt_add_eq_append[of 0 s "ind - s"] by simp
      ultimately show ?thesis using eq tl 0 by simp
    next
      case (Suc k')
      have "Suc k' < length ?tl" using Cons.prems(3) eq Suc by simp
      from Cons.IH[OF srt ge this] show ?thesis using eq Suc by simp
    qed
  qed
qed

lemma sorted_season_filter: "sorted (season_filter ty days)"
  by (simp add: season_filter_def sorted_wrt_filter)

lemma hd_le_sorted: "sorted xs \<Longrightarrow> i \<in> set xs \<Longrightarrow> hd xs \<le> i"
  by (cases xs) auto


lemma season_filter_empty:
  "\<forall>d\<in>set days. \<not> in_season ty d \<Longrightarrow> season_filter ty days = []"
  by (simp add: season_filter_def filter_empty_conv)

lemmas split_eval = split_def generate_season_indices_def check_array_def is_rectangular_def
  n_features_def assert_all_finite_def finite_array_def column0_def season_filter_def
  in_season_def

section \<open>Claims about the splitter\<close>

text \<open>
  C1, as amended. For a non-decreasing day column and a positive \<open>max_day_range\<close>,
  every pair yielded by \<open>split\<close> keeps every train day strictly below every test day,
  hence below the smallest test day: no overlap and no look-ahead.
\<close>

theorem split_no_leakage:
  assumes "check_array X = Inr M" and "sorted (column0 M)" and "0 < max_day_range self"
    and "split self X = Inr folds" and "(train_indices, test_indices) \<in> set folds"
    and "t \<in> set train_indices" and "u \<in> set test_indices"
  shows "column0 M ! t < column0 M ! u"
proof -
  let ?days = "column0 M"
  from split_Inr_checked[OF assms(1,4)]
  have ne: "season_filter (test_year self) ?days \<noteq> []"
    and folds: "folds = split_loop ?days (max_day_range self)
            (hd (season_filter (test_year self) ?days)) (season_filter (test_year self) ?days)"
    by simp_all
  from season_filter_sorted_interval[OF assms(2) ne]
  obtain a b where ab: "a < b" "b \<le> length ?days"
    "season_filter (test_year self) ?days = [a..<b]" "\<forall>t<a. ?days ! t < ?days ! a"
    by (elim exE conjE)
  have hd: "hd [a..<b] = a" using ab(1) by (simp add: upt_conv_Cons)
  have mem: "(train_indices, test_indices) \<in> set (split_loop ?days (max_day_range self) a [a..<b])"
    using assms(5) folds ab(3) hd by simp
  show ?thesis
    by (rule split_loop_separated[OF assms(2,3) ab(2) _ _ ab(4) _ mem assms(6,7)])
       (use ab(1) in simp_all)
qed

theorem split_no_leakage_witness:
  "split \<lparr>test_year = 1, max_day_range = 6\<rparr>
      (finite_array [[0, 5], [0, 7], [3, 1], [7, 2], [8, 0], [14, 3]])
     = Inr [([], [0, 1, 2]), ([0, 1, 2], [3, 4])]
   \<and> column0 [[0, 5], [0, 7], [3, 1], [7, 2], [8, 0], [14, 3]] ! 2
       < column0 [[0, 5], [0, 7], [3, 1], [7, 2], [8, 0], [14, 3]] ! 3"
proof -
  let ?M = "[[0, 5], [0, 7], [3, 1], [7, 2], [8, 0], [14, 3]] :: matrix"
  let ?self = "\<lparr>test_year = 1, max_day_range = 6\<rparr>"
  have chk: "check_array (finite_array ?M) = Inr ?M" by (simp add: split_eval)
  have srt: "sorted (column0 ?M)" by (simp add: column0_def)
  have pos: "0 < max_day_range ?self" by simp
  have sp: "split ?self (finite_array ?M) = Inr [([], [0, 1, 2]), ([0, 1, 2], [3, 4])]"
    by (simp add: split_eval)
  have "column0 ?M ! 2 < column0 ?M ! 3"
    by (rule split_no_leakage[OF chk srt pos sp, of "[0, 1, 2]" "[3, 4]"]) simp_all
  with sp show ?thesis by simp
qed

text \<open>
  C1 as stated fails when \<open>max_day_range \<le> 0\<close>: with three samples on day 0 the third
  pair trains on position 0 and tests on position 1, both of day 0.
\<close>

theorem split_no_leakage_counterexample:
  "check_array (finite_array [[0], [0], [0]]) = Inr [[0], [0], [0]]
   \<and> sorted (column0 [[0], [0], [0]])
   \<and> split \<lparr>test_year = 1, max_day_range = 0\<rparr> (finite_array [[0], [0], [0]])
       = Inr [([], []), ([], [0]), ([0], [1])]
   \<and> \<not> column0 [[0], [0], [0]] ! 0 < column0 [[0], [0], [0]] ! 1"
  by (simp add: split_eval)

text \<open>
  C2. When the array passes validation and the season window holds a sample, \<open>split\<close>
  yields its pairs and \<open>get_n_splits\<close> returns exactly their number.
\<close>

theorem get_n_splits_counts_split:
  assumes "check_array X = Inr M"
    and "season_filter (test_year self) (column0 M) \<noteq> []"
  shows "\<exists>folds. split self X = Inr folds \<and> get_n_splits self X = Inr (length folds)"
proof -
  from assms(2) obtain start_ind rest
    where "season_filter (test_year self) (column0 M) = start_ind # rest"
    by (cases "season_filter (test_year self) (column0 M)") simp_all
  then have "\<exists>folds. split self X = Inr folds"
    by (simp add: split_checked[OF assms(1)])
  then show ?thesis by (auto simp: get_n_splits_split)
qed

theorem get_n_splits_counts_split_witness:
  "split \<lparr>test_year = 1, max_day_range = 6\<rparr>
      (finite_array [[0, 5], [0, 7], [3, 1], [7, 2], [8, 0], [14, 3]])
     = Inr [([], [0, 1, 2]), ([0, 1, 2], [3, 4])]
   \<and> get_n_splits \<lparr>test_year = 1, max_day_range = 6\<rparr>
      (finite_array [[0, 5], [0, 7], [3, 1], [7, 2], [8, 0], [14, 3]]) = Inr 2"
proof -
  let ?M = "[[0, 5], [0, 7], [3, 1], [7, 2], [8, 0], [14, 3]] :: matrix"
  let ?self = "\<lparr>test_year = 1, max_day_range = 6\<rparr>"
  have chk: "check_array (finite_array ?M) = Inr ?M" by (simp add: split_eval)
  have ne: "season_filter (test_year ?self) (column0 ?M) \<noteq> []"
    by (simp add: column0_def season_filter_def in_season_def)
  have sp: "split ?self (finite_array ?M) = Inr [([], [0, 1, 2]), ([0, 1, 2], [3, 4])]"
    by (simp add: split_eval)
  from get_n_splits_counts_split[OF chk ne] sp show ?thesis by auto
qed

text \<open>
  C5, as amended. When no sample's day lies in the season window, \<open>split\<close> and
  \<open>get_n_splits\<close> fail instead of yielding nothing: with IndexError, raised by reading
  the first season index, or with the ValueError of the array validation when the input
  does not pass it.
\<close>

theorem split_empty_window:
  assumes "\<forall>M. check_array X = Inr M \<longrightarrow> (\<forall>d\<in>set (column0 M). \<not> in_season (test_year self) d)"
  shows "split self X = Inl (case check_array X of Inl e \<Rightarrow> ValueError | Inr M \<Rightarrow> IndexError)
       \<and> get_n_splits self X
           = Inl (case check_array X of Inl e \<Rightarrow> ValueError | Inr M \<Rightarrow> IndexError)"
proof -
  have "split self X = Inl (case check_array X of Inl e \<Rightarrow> ValueError | Inr M \<Rightarrow> IndexError)"
  proof (cases "check_array X")
    case (Inl e)
    then show ?thesis using check_array_error[OF Inl] by (simp add: split_rejected)
  next
    case (Inr M)
    with assms have "season_filter (test_year self) (column0 M) = []"
      by (simp add: season_filter_empty)
    with Inr show ?thesis by (simp add: split_checked)
  qed
  then show ?thesis by (simp add: get_n_splits_split)
qed

theorem split_empty_window_witness:
  "split \<lparr>test_year = 2, max_day_range = 6\<rparr> (finite_array [[0, 3], [1, 4]]) = Inl IndexError
   \<and> get_n_splits \<lparr>test_year = 2, max_day_range = 6\<rparr> (finite_array [[0, 3], [1, 4]])
       = Inl IndexError"
  using split_empty_window[of "finite_array [[0, 3], [1, 4]]" "\<lparr>test_year = 2, max_day_range = 6\<rparr>"]
  by (simp add: split_eval)

text \<open>
  C5 as stated names an EmptyWindowError. The file raises no such exception: the failure
  on an empty window is the IndexError of \<^verbatim>\<open>season_indices[0]\<close>, and an input without
  any sample is rejected earlier, by the array validation, with ValueError.
\<close>

theorem split_empty_window_counterexample:
  "split \<lparr>test_year = 1, max_day_range = 6\<rparr> (finite_array [[400], [401]]) = Inl IndexError
   \<and> get_n_splits \<lparr>test_year = 1, max_day_range = 6\<rparr> (finite_array [[400], [401]])
       = Inl IndexError
   \<and> split \<lparr>test_year = 1, max_day_range = 6\<rparr> [] = Inl ValueError
   \<and> get_n_splits \<lparr>test_year = 1, max_day_range = 6\<rparr> [] = Inl ValueError"
  by (simp add: split_eval get_n_splits_def)

text \<open>
  C7. The folds form an expanding window: the train set of a fold is the train set of the
  fold before it followed by that fold's test set. So each train set is a prefix of the
  next one and of the next fold's train and test positions together, and the train sizes
  never decrease.
\<close>

theorem split_expanding_window:
  assumes "split self X = Inr folds" and "Suc k < length folds"
  shows "fst (folds ! Suc k) = fst (folds ! k) @ snd (folds ! k)
       \<and> prefix (fst (folds ! k)) (fst (folds ! k) @ snd (folds ! k))
       \<and> prefix (fst (folds ! k)) (fst (folds ! Suc k))
       \<and> prefix (fst (folds ! k)) (fst (folds ! Suc k) @ snd (folds ! Suc k))
       \<and> length (fst (folds ! k)) \<le> length (fst (folds ! Suc k))"
proof -
  from split_Inr_D[OF assms(1)] obtain M
    where folds: "folds = split_loop (column0 M) (max_day_range self)
            (hd (season_filter (test_year self) (column0 M)))
            (season_filter (test_year self) (column0 M))"
    by blast
  have "fst (folds ! Suc k) = fst (folds ! k) @ snd (folds ! k)"
    unfolding folds
    by (rule split_loop_chain[OF sorted_season_filter])
       (use assms(2) folds in \<open>simp_all add: hd_le_sorted[OF sorted_season_filter]\<close>)
  then show ?thesis by simp
qed

theorem split_expanding_window_witness:
  "split \<lparr>test_year = 1, max_day_range = 6\<rparr>
      (finite_array [[0, 5], [0, 7], [3, 1], [7, 2], [8, 0], [14, 3], [20, 1]])
     = Inr [([], [0, 1, 2]), ([0, 1, 2], [3, 4]), ([0, 1, 2, 3, 4], [5])]
   \<and> prefix [0, 1, 2] [0, 1, 2, 3, 4 :: nat]
   \<and> length [0, 1, 2 :: nat] \<le> length [0, 1, 2, 3, 4 :: nat]"
proof -
  let ?X = "finite_array [[0, 5], [0, 7], [3, 1], [7, 2], [8, 0], [14, 3], [20, 1]]"
  let ?self = "\<lparr>test_year = 1, max_day_range = 6\<rparr>"
  have sp: "split ?self ?X = Inr [([], [0, 1, 2]), ([0, 1, 2], [3, 4]), ([0, 1, 2, 3, 4], [5])]"
    by (simp add: split_eval)
  from split_expanding_window[OF sp, of 1] sp show ?thesis by simp
qed




text \<open>
  C9, as amended. On arrays that pass the validation, \<open>split\<close> and \<open>get_n_splits\<close> read
  the day column only: two such arrays with the same column 0 (hence the same number of
  rows) give the same outcome, whatever their other columns hold.
\<close>

theorem split_depends_on_day_column:
  assumes "check_array X1 = Inr M1" and "check_array X2 = Inr M2"
    and "column0 M1 = column0 M2"
  shows "split self X1 = split self X2 \<and> get_n_splits self X1 = get_n_splits self X2"
proof -
  have "split self X1 = split self X2"
    unfolding split_checked[OF assms(1)] split_checked[OF assms(2)] assms(3) ..
  then show ?thesis by (simp add: get_n_splits_split)
qed

theorem split_depends_on_day_column_witness:
  "split \<lparr>test_year = 1, max_day_range = 6\<rparr> (finite_array [[0, 5], [7, 1], [9, 9]])
     = split \<lparr>test_year = 1, max_day_range = 6\<rparr> (finite_array [[0], [7], [9]])
   \<and> get_n_splits \<lparr>test_year = 1, max_day_range = 6\<rparr> (finite_array [[0, 5], [7, 1], [9, 9]])
     = get_n_splits \<lparr>test_year = 1, max_day_range = 6\<rparr> (finite_array [[0], [7], [9]])"
proof -
  have 1: "check_array (finite_array [[0, 5], [7, 1], [9, 9]]) = Inr [[0, 5], [7, 1], [9, 9]]"
    by (simp add: split_eval)
  have 2: "check_array (finite_array [[0], [7], [9]]) = Inr [[0], [7], [9]]"
    by (simp add: split_eval)
  show ?thesis
    by (rule split_depends_on_day_column[OF 1 2]) (simp add: column0_def)
qed

text \<open>
  C9 as stated fails: \<^verbatim>\<open>check_array\<close> validates the whole array. Two arrays with the same
  day column, one of them with a NaN in another column: the first yields a fold, the
  second is rejected with ValueError.
\<close>

theorem split_depends_on_day_column_counterexample:
  "map (\<lambda>r. r ! 0) [[Finite 0, Finite 1], [Finite 7, Finite 1]]
     = map (\<lambda>r. r ! 0) [[Finite 0, NaN], [Finite 7, Finite 1]]
   \<and> split \<lparr>test_year = 1, max_day_range = 6\<rparr> [[Finite 0, Finite 1], [Finite 7, Finite 1]]
       = Inr [([], [0])]
   \<and> split \<lparr>test_year = 1, max_day_range = 6\<rparr> [[Finite 0, NaN], [Finite 7, Finite 1]]
       = Inl ValueError"
  by (simp add: split_eval)

section \<open>Claims about the backtest orchestrator\<close>

text \<open>
  C6, as amended. \<open>backtest\<close> has no check on the number of folds. When the splitter
  fails, as it does on an empty season window, \<open>backtest\<close> fails with the same error; when
  the splitter yields no fold without failing (a window in which no fold closes),
  \<open>backtest\<close> returns normally with an empty \<^verbatim>\<open>backtest_results_\<close>.
\<close>

theorem backtest_zero_folds:
  assumes "hstack_odds X0 odds = Inr X"
  shows "(split splitter (finite_array X) = Inr [] \<longrightarrow>
           backtest env validation_size splitter (Inr (X0, y, odds)) = Inr [])
       \<and> (\<forall>e. split splitter (finite_array X) = Inl e \<longrightarrow>
           backtest env validation_size splitter (Inr (X0, y, odds)) = Inl e)"
  using assms by (simp add: backtest_def)

theorem backtest_zero_folds_witness:
  "backtest
      \<lparr>fit_predict = (\<lambda>X_train y_train eval_set X_test. Inl ValueError),
       train_test_split = (\<lambda>v X_train y_train. Inl ValueError)\<rparr>
      None \<lparr>test_year = 1, max_day_range = 6\<rparr>
      (Inr ([[0, 1], [1, 1], [5, 0]], [0, 1, 1], [2, 3, 2])) = Inr []
   \<and> backtest
      \<lparr>fit_predict = (\<lambda>X_train y_train eval_set X_test. Inl ValueError),
       train_test_split = (\<lambda>v X_train y_train. Inl ValueError)\<rparr>
      None \<lparr>test_year = 2, max_day_range = 6\<rparr>
      (Inr ([[0, 1], [1, 1], [5, 0]], [0, 1, 1], [2, 3, 2])) = Inl IndexError"
proof -
  let ?X = "[[0, 1, 2], [1, 1, 3], [5, 0, 2]] :: matrix"
  have hs: "hstack_odds [[0, 1], [1, 1], [5, 0]] [2, 3, 2] = Inr ?X"
    by (simp add: hstack_odds_def)
  have narrow: "split \<lparr>test_year = 1, max_day_range = 6\<rparr> (finite_array ?X) = Inr []"
    by (simp add: split_eval)
  have empty: "split \<lparr>test_year = 2, max_day_range = 6\<rparr> (finite_array ?X) = Inl IndexError"
    by (simp add: split_eval)
  from backtest_zero_folds[OF hs, of "\<lparr>test_year = 1, max_day_range = 6\<rparr>"] narrow
    backtest_zero_folds[OF hs, of "\<lparr>test_year = 2, max_day_range = 6\<rparr>"] empty
  show ?thesis by simp
qed

text \<open>
  C6 as stated fails: two samples one day apart lie in season 1 and never reach the day
  range of 6, the splitter yields zero folds, and \<open>backtest\<close> returns an empty list.
\<close>

theorem backtest_zero_folds_counterexample:
  "split \<lparr>test_year = 1, max_day_range = 6\<rparr> (finite_array [[0, 1, 2], [1, 1, 3]]) = Inr []
   \<and> backtest
      \<lparr>fit_predict = (\<lambda>X_train y_train eval_set X_test. Inr (map (\<lambda>r. 1) X_test)),
       train_test_split = (\<lambda>v X_train y_train. Inl ValueError)\<rparr>
      None \<lparr>test_year = 1, max_day_range = 6\<rparr>
      (Inr ([[0, 1], [1, 1]], [0, 1], [2, 3])) = Inr []"
  by (simp add: backtest_def hstack_odds_def split_eval)

text \<open>
  With exactly one fold the first \<^verbatim>\<open>bar.update\<close> raises: the fold result is appended, and
  the call ends with the progress bar's ZeroDivisionError.
\<close>

lemma backtest_single_fold:
  "split \<lparr>test_year = 1, max_day_range = 6\<rparr> (finite_array [[0, 1, 2], [7, 1, 3]])
     = Inr [([], [0])]
   \<and> backtest
      \<lparr>fit_predict = (\<lambda>X_train y_train eval_set X_test. Inr (map (\<lambda>r. 1) X_test)),
       train_test_split = (\<lambda>v X_train y_train. Inl ValueError)\<rparr>
      None \<lparr>test_year = 1, max_day_range = 6\<rparr>
      (Inr ([[0, 1], [7, 1]], [0, 1], [2, 3])) = Inl ZeroDivisionError"
  by (simp add: backtest_def hstack_odds_def bar_update_def split_eval)

section \<open>Capital simulation: auxiliary facts\<close>

text \<open>
  One fold appends one row whose bet amount is the carried bet amount, clamped to the
  capital of the row plus the power; the prediction arrays grow at the front.
\<close>

lemma fold_step_Inr:
  assumes "fold_step sc bf ce st fr = Inr st'"
  shows "\<exists>row pw. py_pow bf ce = Inr pw
       \<and> statistics st' = statistics st @ [row]
       \<and> Bet_amount row = bet_amount st'
       \<and> Bet_amount row \<le> Capital row + pw
       \<and> y_pred_all st' = snd fr @ y_pred_all st
       \<and> y_test_all st' = fst fr @ y_test_all st"
proof -
  obtain y_test y_pred where fr: "fr = (y_test, y_pred)" by (cases fr)
  from assms obtain pw where pw: "py_pow bf ce = Inr pw"
    by (cases "py_pow bf ce") (simp_all add: fold_step_def fr Let_def)
  from assms show ?thesis
    unfolding fold_step_def fr Let_def pw by (auto split: if_splits)
qed

lemma fold_step_total:
  "py_pow bf ce = Inr pw \<Longrightarrow> \<exists>st'. fold_step sc bf ce st fr = Inr st'"
  by (cases fr) (simp add: fold_step_def Let_def)

lemma stats_loop_total:
  "py_pow bf ce = Inr pw \<Longrightarrow> \<exists>st'. stats_loop sc bf ce st frs = Inr st'"
proof (induction frs arbitrary: st)
  case Nil
  then show ?case by simp
next
  case (Cons fr frs)
  from fold_step_total[OF Cons.prems] obtain st1 where "fold_step sc bf ce st fr = Inr st1"
    by blast
  with Cons.IH[OF Cons.prems, of st1] show ?case by simp
qed

lemma stats_loop_ceiling:
  assumes "py_pow bf ce = Inr pw"
  shows "stats_loop sc bf ce st frs = Inr st'
     \<Longrightarrow> \<forall>row\<in>set (statistics st). Bet_amount row \<le> Capital row + pw
     \<Longrightarrow> \<forall>row\<in>set (statistics st'). Bet_amount row \<le> Capital row + pw"
proof (induction frs arbitrary: st)
  case Nil
  then show ?case by simp
next
  case (Cons fr frs)
  from Cons.prems(1) obtain st1 where st1: "fold_step sc bf ce st fr = Inr st1"
    by (cases "fold_step sc bf ce st fr") simp_all
  from fold_step_Inr[OF st1] assms obtain row
    where row: "statistics st1 = statistics st @ [row]" "Bet_amount row \<le> Capital row + pw"
    by auto
  with Cons.prems(2)
  have inv1: "\<forall>row\<in>set (statistics st1). Bet_amount row \<le> Capital row + pw" by simp
  show ?case
  proof (cases "bet_amount st1 = 0")
    case True
    with Cons.prems(1) st1 have "st' = st1" by simp
    with inv1 show ?thesis by simp
  next
    case False
    with Cons.prems(1) st1 have "stats_loop sc bf ce st1 frs = Inr st'" by simp
    from Cons.IH[OF this inv1] show ?thesis .
  qed
qed

lemma py_pow_nonneg: "0 \<le> ce \<Longrightarrow> py_pow bf ce = Inr (bf ^ nat ce)"
  by (simp add: py_pow_def power_int_def)

lemma define_attributes_Inr:
  "define_attributes sc st = Inr res \<Longrightarrow> statistics_df res = statistics st"
  by (auto simp: define_attributes_def split: sum.splits)

lemma define_attributes_returns:
  "score_repr sc = NumpyScalar \<or> y_pred_all st \<noteq> [] \<Longrightarrow> \<exists>res. define_attributes sc st = Inr res"
  by (auto simp: define_attributes_def true_divide_def split: score_repr.splits)

text \<open>
  The loop against the steps without a stopping rule: \<open>k\<close> steps leave \<open>k\<close> rows, the last
  one with the carried bet amount, and the loop ends in the state after the first fold
  that leaves the bet amount at 0.
\<close>

lemma fold_steps_rows:
  "fold_steps sc bf ce st frs = Inr st' \<Longrightarrow>
   length (statistics st') = length (statistics st) + length frs
   \<and> (frs \<noteq> [] \<longrightarrow> Bet_amount (last (statistics st')) = bet_amount st')"
proof (induction frs arbitrary: st)
  case Nil
  then show ?case by simp
next
  case (Cons fr frs)
  from Cons.prems obtain st1 where st1: "fold_step sc bf ce st fr = Inr st1"
    and run: "fold_steps sc bf ce st1 frs = Inr st'"
    by (cases "fold_step sc bf ce st fr") simp_all
  from fold_step_Inr[OF st1] obtain row
    where row: "statistics st1 = statistics st @ [row]" "Bet_amount row = bet_amount st1"
    by auto
  from Cons.IH[OF run] row show ?case by (cases frs) (use run in auto)
qed

lemma stats_loop_first_ruin:
  "0 < k \<Longrightarrow> k \<le> length frs \<Longrightarrow> fold_steps sc bf ce st0 (take k frs) = Inr st
   \<Longrightarrow> bet_amount st = 0
   \<Longrightarrow> (\<forall>j. 0 < j \<and> j < k \<longrightarrow>
         (\<forall>s. fold_steps sc bf ce st0 (take j frs) = Inr s \<longrightarrow> bet_amount s \<noteq> 0))
   \<Longrightarrow> stats_loop sc bf ce st0 frs = Inr st"
proof (induction frs arbitrary: st0 k)
  case Nil
  then show ?case by simp
next
  case (Cons fr frs)
  from Cons.prems(1) obtain k' where k: "k = Suc k'" by (cases k) simp_all
  from Cons.prems(3) k obtain s1 where s1: "fold_step sc bf ce st0 fr = Inr s1"
    and run: "fold_steps sc bf ce s1 (take k' frs) = Inr st"
    by (cases "fold_step sc bf ce st0 fr") simp_all
  show ?case
  proof (cases "k' = 0")
    case True
    with run have "st = s1" by simp
    with Cons.prems(4) s1 show ?thesis by simp
  next
    case False
    have "fold_steps sc bf ce st0 (take 1 (fr # frs)) = Inr s1" using s1 by simp
    moreover have "0 < (1::nat) \<and> 1 < k" using False k by simp
    ultimately have nz: "bet_amount s1 \<noteq> 0" using Cons.prems(5) by blast
    have later: "\<forall>j. 0 < j \<and> j < k' \<longrightarrow>
         (\<forall>s. fold_steps sc bf ce s1 (take j frs) = Inr s \<longrightarrow> bet_amount s \<noteq> 0)"
    proof (intro allI impI)
      fix j s assume j: "0 < j \<and> j < k'" and s: "fold_steps sc bf ce s1 (take j frs) = Inr s"
      have "fold_steps sc bf ce st0 (take (Suc j) (fr # frs)) = Inr s" using s1 s by simp
      moreover have "0 < Suc j \<and> Suc j < k" using j k by simp
      ultimately show "bet_amount s \<noteq> 0" using Cons.prems(5) by blast
    qed
    have "stats_loop sc bf ce s1 frs = Inr st"
      by (rule Cons.IH[OF _ _ run Cons.prems(4) later]) (use False k Cons.prems(2) in simp_all)
    with s1 nz show ?thesis by simp
  qed
qed

text \<open>
  The folds the loop has processed are as many as the rows, and the concatenated arrays
  hold their labels and predictions, latest fold first.
\<close>

lemma stats_loop_processed:
  "stats_loop sc bf ce st frs = Inr st' \<Longrightarrow>
   \<exists>n\<le>length frs. length (statistics st') = length (statistics st) + n
     \<and> y_pred_all st' = concat (rev (map snd (take n frs))) @ y_pred_all st
     \<and> y_test_all st' = concat (rev (map fst (take n frs))) @ y_test_all st"
proof (induction frs arbitrary: st)
  case Nil
  then show ?case by simp
next
  case (Cons fr frs)
  from Cons.prems obtain st1 where st1: "fold_step sc bf ce st fr = Inr st1"
    by (cases "fold_step sc bf ce st fr") simp_all
  from fold_step_Inr[OF st1] obtain row
    where row: "statistics st1 = statistics st @ [row]"
      "y_pred_all st1 = snd fr @ y_pred_all st" "y_test_all st1 = fst fr @ y_test_all st"
    by auto
  show ?case
  proof (cases "bet_amount st1 = 0")
    case True
    with Cons.prems st1 have "st' = st1" by simp
    with row show ?thesis by (intro exI[of _ 1]) simp
  next
    case False
    with Cons.prems st1 have "stats_loop sc bf ce st1 frs = Inr st'" by simp
    from Cons.IH[OF this] obtain n where n: "n \<le> length frs"
      "length (statistics st') = length (statistics st1) + n"
      "y_pred_all st' = concat (rev (map snd (take n frs))) @ y_pred_all st1"
      "y_test_all st' = concat (rev (map fst (take n frs))) @ y_test_all st1"
      by blast
    with row show ?thesis by (intro exI[of _ "Suc n"]) simp
  qed
qed

lemma length_concat_predictions:
  "length (concat (rev (map snd frs))) = sum_list (map (\<lambda>fr. length (snd fr)) frs)"
  by (induction frs) simp_all

lemma sum_list_length_pos:
  "(0 < sum_list (map (\<lambda>fr. length (snd fr)) frs)) = (\<exists>fr\<in>set frs. snd fr \<noteq> [])"
  by (induction frs) auto

lemmas stats_eval = calculate_backtest_stats_def define_attributes_def true_divide_def
  initial_state_def fold_step_def py_pow_def power_int_def nanmean_def List.map_filter_def
  Let_def

section \<open>Claims about the capital simulation\<close>

text \<open>
  C3. For \<open>bet_factor > 1\<close> and \<open>credit_exponent \<ge> 0\<close> every per-fold step returns, so the
  loop ends with its rows, and in every row it has emitted the bet amount is at most the
  capital of that row plus \<open>bet_factor ^ credit_exponent\<close>. The returned data frame holds
  exactly these rows; the call returns unless the division after the loop is a Python
  division by zero.
\<close>

theorem bet_amount_within_credit:
  assumes "1 < bet_factor" and "0 \<le> credit_exponent"
  shows "\<exists>st. stats_loop sc bet_factor credit_exponent initial_state backtest_results = Inr st
       \<and> (\<forall>row\<in>set (statistics st).
             Bet_amount row \<le> Capital row + bet_factor ^ nat credit_exponent)
       \<and> (\<forall>res. calculate_backtest_stats sc bet_factor credit_exponent backtest_results = Inr res
             \<longrightarrow> statistics_df res = statistics st)
       \<and> (score_repr sc = NumpyScalar \<or> y_pred_all st \<noteq> [] \<longrightarrow>
             (\<exists>res. calculate_backtest_stats sc bet_factor credit_exponent backtest_results
                      = Inr res))"
proof -
  have pw: "py_pow bet_factor credit_exponent = Inr (bet_factor ^ nat credit_exponent)"
    using assms(2) by (rule py_pow_nonneg)
  from stats_loop_total[OF pw]
  obtain st where st: "stats_loop sc bet_factor credit_exponent initial_state backtest_results = Inr st"
    by blast
  have calc: "calculate_backtest_stats sc bet_factor credit_exponent backtest_results
      = define_attributes sc st"
    using st by (simp add: calculate_backtest_stats_def)
  have rows: "\<forall>row\<in>set (statistics st). Bet_amount row \<le> Capital row + bet_factor ^ nat credit_exponent"
    by (rule stats_loop_ceiling[OF pw st]) (simp add: initial_state_def)
  have frame: "\<forall>res. calculate_backtest_stats sc bet_factor credit_exponent backtest_results = Inr res
             \<longrightarrow> statistics_df res = statistics st"
    unfolding calc by (simp add: define_attributes_Inr)
  have ret: "score_repr sc = NumpyScalar \<or> y_pred_all st \<noteq> [] \<longrightarrow>
             (\<exists>res. calculate_backtest_stats sc bet_factor credit_exponent backtest_results = Inr res)"
    unfolding calc using define_attributes_returns by blast
  from st rows frame ret show ?thesis by blast
qed

theorem bet_amount_within_credit_witness:
  "(1::real) < 2 \<and> (0::int) \<le> 1
   \<and> calculate_backtest_stats
       \<lparr>total_profit_score = (\<lambda>y_test y_pred. - of_nat (length (filter (\<lambda>p. p > 0) y_pred))),
        precision_score = (\<lambda>y_test y_pred_bin. 0), score_repr = PythonNumber\<rparr>
       2 1 [([0], [1]), ([0], [1])]
     = Inr \<lparr>statistics_df =
        [\<lparr>Capital = 0, Profit = - 1, Bet_amount = 2, Bets = 1, Matches = 1,
            Precision = Some 0\<rparr>,
         \<lparr>Capital = - 2, Profit = - 2, Bet_amount = 0, Bets = 1, Matches = 1,
            Precision = Some 0\<rparr>],
        profit_per_bet_attr = Finite (- 1), precision_attr = Some 0\<rparr>
   \<and> (2::real) \<le> 0 + 2 ^ nat 1 \<and> (0::real) \<le> - 2 + 2 ^ nat 1"
proof -
  let ?sc = "\<lparr>total_profit_score = (\<lambda>y_test y_pred. - of_nat (length (filter (\<lambda>p. p > 0) y_pred))),
        precision_score = (\<lambda>y_test y_pred_bin. 0), score_repr = PythonNumber\<rparr>"
  have ev: "calculate_backtest_stats ?sc 2 1 [([0], [1]), ([0], [1])]
     = Inr \<lparr>statistics_df =
        [\<lparr>Capital = 0, Profit = - 1, Bet_amount = 2, Bets = 1, Matches = 1,
            Precision = Some 0\<rparr>,
         \<lparr>Capital = - 2, Profit = - 2, Bet_amount = 0, Bets = 1, Matches = 1,
            Precision = Some 0\<rparr>],
        profit_per_bet_attr = Finite (- 1), precision_attr = Some 0\<rparr>"
    by (simp add: stats_eval)
  from bet_amount_within_credit[of 2 1 ?sc "[([0], [1]), ([0], [1])]"] ev
  show ?thesis by simp
qed

text \<open>
  C4. If the bet amount left by the per-fold step is 0 after fold \<open>k\<close> and after no earlier
  fold, the loop ends in the state after fold \<open>k\<close>: it has emitted exactly \<open>k\<close> rows, the
  last of them the row of fold \<open>k\<close> with bet amount 0, and none for a later fold, however
  many folds follow. What the call returns is computed from that state, and a returned
  data frame has exactly these \<open>k\<close> rows.
\<close>

theorem ruin_stops_simulation:
  assumes "0 < k" and "k \<le> length backtest_results"
    and "fold_steps sc bet_factor credit_exponent initial_state (take k backtest_results) = Inr st"
    and "bet_amount st = 0"
    and "\<forall>j. 0 < j \<and> j < k \<longrightarrow>
           (\<forall>s. fold_steps sc bet_factor credit_exponent initial_state (take j backtest_results)
                  = Inr s \<longrightarrow> bet_amount s \<noteq> 0)"
  shows "stats_loop sc bet_factor credit_exponent initial_state backtest_results = Inr st
       \<and> length (statistics st) = k
       \<and> Bet_amount (last (statistics st)) = 0
       \<and> calculate_backtest_stats sc bet_factor credit_exponent backtest_results
           = define_attributes sc st
       \<and> (\<forall>res. calculate_backtest_stats sc bet_factor credit_exponent backtest_results = Inr res
             \<longrightarrow> statistics_df res = statistics st \<and> length (statistics_df res) = k)"
proof -
  have loop: "stats_loop sc bet_factor credit_exponent initial_state backtest_results = Inr st"
    using assms by (rule stats_loop_first_ruin)
  have ne: "take k backtest_results \<noteq> []" using assms(1,2) by auto
  from fold_steps_rows[OF assms(3)] ne assms(1,2,4)
  have rows: "length (statistics st) = k" "Bet_amount (last (statistics st)) = 0"
    by (simp_all add: initial_state_def)
  have calc: "calculate_backtest_stats sc bet_factor credit_exponent backtest_results
      = define_attributes sc st"
    using loop by (simp add: calculate_backtest_stats_def)
  have "\<forall>res. calculate_backtest_stats sc bet_factor credit_exponent backtest_results = Inr res
             \<longrightarrow> statistics_df res = statistics st \<and> length (statistics_df res) = k"
    unfolding calc using rows(1) by (auto dest: define_attributes_Inr)
  with loop rows calc show ?thesis by blast
qed

theorem ruin_stops_simulation_witness:
  "stats_loop
       \<lparr>total_profit_score = (\<lambda>y_test y_pred. - of_nat (length (filter (\<lambda>p. p > 0) y_pred))),
        precision_score = (\<lambda>y_test y_pred_bin. 0), score_repr = PythonNumber\<rparr>
       2 1 initial_state [([0], [1]), ([0], [1]), ([1], [1]), ([1], [1]), ([1], [1])]
     = Inr \<lparr>statistics =
        [\<lparr>Capital = 0, Profit = - 1, Bet_amount = 2, Bets = 1, Matches = 1,
            Precision = Some 0\<rparr>,
         \<lparr>Capital = - 2, Profit = - 2, Bet_amount = 0, Bets = 1, Matches = 1,
            Precision = Some 0\<rparr>],
        precisions = [Some 0, Some 0], capital = - 2, bet_amount = 0,
        y_test_all = [0, 0], y_pred_all = [1, 1]\<rparr>
   \<and> calculate_backtest_stats
       \<lparr>total_profit_score = (\<lambda>y_test y_pred. - of_nat (length (filter (\<lambda>p. p > 0) y_pred))),
        precision_score = (\<lambda>y_test y_pred_bin. 0), score_repr = PythonNumber\<rparr>
       2 1 [([0], [1]), ([0], [1]), ([1], [1]), ([1], [1]), ([1], [1])]
     = Inr \<lparr>statistics_df =
        [\<lparr>Capital = 0, Profit = - 1, Bet_amount = 2, Bets = 1, Matches = 1,
            Precision = Some 0\<rparr>,
         \<lparr>Capital = - 2, Profit = - 2, Bet_amount = 0, Bets = 1, Matches = 1,
            Precision = Some 0\<rparr>],
        profit_per_bet_attr = Finite (- 1), precision_attr = Some 0\<rparr>"
proof -
  let ?sc = "\<lparr>total_profit_score = (\<lambda>y_test y_pred. - of_nat (length (filter (\<lambda>p. p > 0) y_pred))),
        precision_score = (\<lambda>y_test y_pred_bin. 0), score_repr = PythonNumber\<rparr>"
  let ?folds = "[([0], [1]), ([0], [1]), ([1], [1]), ([1], [1]), ([1], [1])] :: fold_result list"
  let ?st = "\<lparr>statistics =
        [\<lparr>Capital = 0, Profit = - 1, Bet_amount = 2, Bets = 1, Matches = 1,
            Precision = Some 0\<rparr>,
         \<lparr>Capital = - 2, Profit = - 2, Bet_amount = 0, Bets = 1, Matches = 1,
            Precision = Some 0\<rparr>],
        precisions = [Some 0, Some 0], capital = - 2, bet_amount = 0,
        y_test_all = [0, 0], y_pred_all = [1, 1]\<rparr>"
  have after2: "fold_steps ?sc 2 1 initial_state (take 2 ?folds) = Inr ?st"
    by (simp add: stats_eval)
  have after1: "fold_steps ?sc 2 1 initial_state (take 1 ?folds)
      = Inr \<lparr>statistics =
          [\<lparr>Capital = 0, Profit = - 1, Bet_amount = 2, Bets = 1, Matches = 1,
              Precision = Some 0\<rparr>],
          precisions = [Some 0], capital = 0, bet_amount = 2,
          y_test_all = [0], y_pred_all = [1]\<rparr>"
    by (simp add: stats_eval)
  have first: "\<forall>j. 0 < j \<and> j < 2 \<longrightarrow>
      (\<forall>s. fold_steps ?sc 2 1 initial_state (take j ?folds) = Inr s \<longrightarrow> bet_amount s \<noteq> 0)"
  proof (intro allI impI)
    fix j :: nat and s
    assume "0 < j \<and> j < 2" and s: "fold_steps ?sc 2 1 initial_state (take j ?folds) = Inr s"
    then have "j = 1" by simp
    with s after1 show "bet_amount s \<noteq> 0" by auto
  qed
  have ruin: "bet_amount ?st = 0" by simp
  from ruin_stops_simulation[OF _ _ after2 ruin first]
  show ?thesis by (simp add: define_attributes_def true_divide_def nanmean_def List.map_filter_def)
qed

text \<open>
  C10. The divisor of \<^verbatim>\<open>profit_per_bet_\<close> is the number of predictions of the folds
  processed (one per emitted row), and the score is divided by it with no guard: the
  attribute is the quotient when the divisor is positive, which it is exactly when some
  processed fold holds a prediction, and a division by zero happens otherwise, as for
  an empty \<^verbatim>\<open>backtest_results_\<close>. Then a Python number raises ZeroDivisionError and a numpy
  scalar gives an infinity or NaN.
\<close>

theorem profit_per_bet_divisor:
  "calculate_backtest_stats sc bet_factor credit_exponent []
     = (case score_repr sc of
          PythonNumber \<Rightarrow> Inl ZeroDivisionError
        | NumpyScalar \<Rightarrow>
            Inr \<lparr>statistics_df = [],
                 profit_per_bet_attr =
                   (if 0 < total_profit_score sc [] [] then PosInf
                    else if total_profit_score sc [] [] < 0 then NegInf else NaN),
                 precision_attr = None\<rparr>)
   \<and> (stats_loop sc bet_factor credit_exponent initial_state backtest_results = Inr st \<longrightarrow>
        (let processed = take (length (statistics st)) backtest_results;
             divisor = sum_list (map (\<lambda>fr. length (snd fr)) processed);
             score = total_profit_score sc (concat (rev (map fst processed)))
                       (concat (rev (map snd processed)))
         in length (y_pred_all st) = divisor
            \<and> (0 < divisor) = (\<exists>fr\<in>set processed. snd fr \<noteq> [])
            \<and> calculate_backtest_stats sc bet_factor credit_exponent backtest_results =
                (if divisor = 0
                 then (case score_repr sc of
                         PythonNumber \<Rightarrow> Inl ZeroDivisionError
                       | NumpyScalar \<Rightarrow>
                           Inr \<lparr>statistics_df = statistics st,
                                profit_per_bet_attr =
                                  (if 0 < score then PosInf
                                   else if score < 0 then NegInf else NaN),
                                precision_attr = nanmean (precisions st)\<rparr>)
                 else Inr \<lparr>statistics_df = statistics st,
                           profit_per_bet_attr = Finite (score / of_nat divisor),
                           precision_attr = nanmean (precisions st)\<rparr>)))"
proof (intro conjI impI)
  show "calculate_backtest_stats sc bet_factor credit_exponent []
     = (case score_repr sc of
          PythonNumber \<Rightarrow> Inl ZeroDivisionError
        | NumpyScalar \<Rightarrow>
            Inr \<lparr>statistics_df = [],
                 profit_per_bet_attr =
                   (if 0 < total_profit_score sc [] [] then PosInf
                    else if total_profit_score sc [] [] < 0 then NegInf else NaN),
                 precision_attr = None\<rparr>)"
    by (simp add: calculate_backtest_stats_def define_attributes_def true_divide_def
        initial_state_def nanmean_def List.map_filter_simps split: score_repr.splits)
next
  assume st: "stats_loop sc bet_factor credit_exponent initial_state backtest_results = Inr st"
  from stats_loop_processed[OF st] obtain n where n: "n \<le> length backtest_results"
    "length (statistics st) = n"
    "y_pred_all st = concat (rev (map snd (take n backtest_results)))"
    "y_test_all st = concat (rev (map fst (take n backtest_results)))"
    by (auto simp: initial_state_def)
  let ?processed = "take (length (statistics st)) backtest_results"
  let ?divisor = "sum_list (map (\<lambda>fr. length (snd fr)) ?processed)"
  let ?score = "total_profit_score sc (concat (rev (map fst ?processed)))
                       (concat (rev (map snd ?processed)))"
  have preds: "y_pred_all st = concat (rev (map snd ?processed))"
    and tests: "y_test_all st = concat (rev (map fst ?processed))"
    using n by simp_all
  have 1: "length (y_pred_all st) = ?divisor"
    unfolding preds by (rule length_concat_predictions)
  have 2: "(0 < ?divisor) = (\<exists>fr\<in>set ?processed. snd fr \<noteq> [])"
    by (rule sum_list_length_pos)
  have score: "total_profit_score sc (y_test_all st) (y_pred_all st) = ?score"
    using preds tests by simp
  have calc: "calculate_backtest_stats sc bet_factor credit_exponent backtest_results
      = define_attributes sc st"
    using st by (simp add: calculate_backtest_stats_def)
  have 3: "calculate_backtest_stats sc bet_factor credit_exponent backtest_results =
                (if ?divisor = 0
                 then (case score_repr sc of
                         PythonNumber \<Rightarrow> Inl ZeroDivisionError
                       | NumpyScalar \<Rightarrow>
                           Inr \<lparr>statistics_df = statistics st,
                                profit_per_bet_attr =
                                  (if 0 < ?score then PosInf
                                   else if ?score < 0 then NegInf else NaN),
                                precision_attr = nanmean (precisions st)\<rparr>)
                 else Inr \<lparr>statistics_df = statistics st,
                           profit_per_bet_attr = Finite (?score / of_nat ?divisor),
                           precision_attr = nanmean (precisions st)\<rparr>)"
    unfolding calc define_attributes_def true_divide_def score 1
    by (simp split: score_repr.splits)
  from 1 2 3 show "let processed = ?processed;
             divisor = sum_list (map (\<lambda>fr. length (snd fr)) processed);
             score = total_profit_score sc (concat (rev (map fst processed)))
                       (concat (rev (map snd processed)))
         in length (y_pred_all st) = divisor
            \<and> (0 < divisor) = (\<exists>fr\<in>set processed. snd fr \<noteq> [])
            \<and> calculate_backtest_stats sc bet_factor credit_exponent backtest_results =
                (if divisor = 0
                 then (case score_repr sc of
                         PythonNumber \<Rightarrow> Inl ZeroDivisionError
                       | NumpyScalar \<Rightarrow>
                           Inr \<lparr>statistics_df = statistics st,
                                profit_per_bet_attr =
                                  (if 0 < score then PosInf
                                   else if score < 0 then NegInf else NaN),
                                precision_attr = nanmean (precisions st)\<rparr>)
                 else Inr \<lparr>statistics_df = statistics st,
                           profit_per_bet_attr = Finite (score / of_nat divisor),
                           precision_attr = nanmean (precisions st)\<rparr>)"
    unfolding Let_def by (intro conjI)
qed

theorem profit_per_bet_divisor_witness:
  "calculate_backtest_stats
       \<lparr>total_profit_score = (\<lambda>y_test y_pred. - of_nat (length (filter (\<lambda>p. p > 0) y_pred))),
        precision_score = (\<lambda>y_test y_pred_bin. 0), score_repr = PythonNumber\<rparr> (3 / 2) 3 []
     = Inl ZeroDivisionError
   \<and> calculate_backtest_stats
       \<lparr>total_profit_score = (\<lambda>y_test y_pred. - of_nat (length (filter (\<lambda>p. p > 0) y_pred))),
        precision_score = (\<lambda>y_test y_pred_bin. 0), score_repr = PythonNumber\<rparr> (3 / 2) 3
       [([0, 1], [1, - 1]), ([], [])]
     = Inr \<lparr>statistics_df =
        [\<lparr>Capital = 0, Profit = - 1, Bet_amount = 3 / 2, Bets = 1, Matches = 2,
            Precision = Some 0\<rparr>,
         \<lparr>Capital = 0, Profit = 0, Bet_amount = 1, Bets = 0, Matches = 0,
            Precision = None\<rparr>],
        profit_per_bet_attr = Finite (- 1 / 2), precision_attr = Some 0\<rparr>"
proof -
  let ?sc = "\<lparr>total_profit_score = (\<lambda>y_test y_pred. - of_nat (length (filter (\<lambda>p. p > 0) y_pred))),
        precision_score = (\<lambda>y_test y_pred_bin. 0), score_repr = PythonNumber\<rparr>"
  let ?st = "\<lparr>statistics =
        [\<lparr>Capital = 0, Profit = - 1, Bet_amount = 3 / 2, Bets = 1, Matches = 2,
            Precision = Some 0\<rparr>,
         \<lparr>Capital = 0, Profit = 0, Bet_amount = 1, Bets = 0, Matches = 0,
            Precision = None\<rparr>],
        precisions = [Some 0, None], capital = 0, bet_amount = 1,
        y_test_all = [0, 1], y_pred_all = [1, - 1]\<rparr>"
  have loop: "stats_loop ?sc (3 / 2) 3 initial_state [([0, 1], [1, - 1]), ([], [])] = Inr ?st"
    by (simp add: stats_eval power_divide)
  from profit_per_bet_divisor[of ?sc "3 / 2" 3 "[([0, 1], [1, - 1]), ([], [])]" ?st] loop
  show ?thesis by (simp add: Let_def nanmean_def List.map_filter_def)
qed

end
